theory Spec2Isabelle
  imports Main "HOL-Library.Multiset" "HOL-Library.Product_Lexorder" "HOL-Library.List_Lexorder" "HOL-Library.Char_ord"
begin

section \<open>Data model of app.py\<close>

text \<open>
  The application keeps two collections of documents in a document store:
  \<^verbatim>\<open>rap_words\<close> and \<^verbatim>\<open>generation_rounds\<close>. A document is a record with one
  field per key the code reads or writes; a key that may be missing from a document
  (\<^verbatim>\<open>votes\<close>, \<^verbatim>\<open>generated_songs\<close>) is an \<open>option\<close>. A text is a list of
  characters and \<open>length\<close> counts them, as \<^verbatim>\<open>len\<close> does in the source.
  Document identifiers are natural numbers, timestamps are integers, the session's
  user identifier is a string (\<^verbatim>\<open>str(ObjectId())\<close>).
\<close>

type_synonym oid = nat
type_synonym time = int

record vote =
  user_id :: string
  timestamp :: time

record word_doc =
  w_id :: oid
  word :: string
  word_votes :: "vote list option"
  w_created_at :: time
  created_by :: string
  round_id :: oid

record song =
  lyric :: string
  audio_url :: string

record round_doc =
  r_id :: oid
  round_number :: int
  status :: string
  r_created_at :: time
  total_chars :: nat
  round_votes :: "vote list option"
  generated_songs :: "song list option"

record store =
  words_collection :: "word_doc list"
  rounds_collection :: "round_doc list"

datatype error = AttributeError

subsection \<open>Constants\<close>

definition BASE_PROMPT :: string where
  "BASE_PROMPT = ''Create a cool rap song with the following words that must be in it: ''"

definition CHAR_LIMIT :: nat where
  "CHAR_LIMIT = 200"

subsection \<open>The store operations the code calls\<close>

text \<open>
  A collection is the list of its documents in insertion order. \<^verbatim>\<open>find\<close> returns the
  matching documents in that order, \<^verbatim>\<open>find_one\<close> the first of them, \<^verbatim>\<open>insert_one\<close>
  appends, \<^verbatim>\<open>update_one\<close> changes the first matching document and nothing when none
  matches, \<^verbatim>\<open>count_documents({})\<close> is the number of documents.
\<close>

definition find_docs :: "('d \<Rightarrow> bool) \<Rightarrow> 'd list \<Rightarrow> 'd list" where
  "find_docs q ds = filter q ds"

fun find_one :: "('d \<Rightarrow> bool) \<Rightarrow> 'd list \<Rightarrow> 'd option" where
  "find_one q [] = None"
| "find_one q (d # ds) = (if q d then Some d else find_one q ds)"

definition insert_one :: "'d \<Rightarrow> 'd list \<Rightarrow> 'd list" where
  "insert_one d ds = ds @ [d]"

fun update_one :: "('d \<Rightarrow> bool) \<Rightarrow> ('d \<Rightarrow> 'd) \<Rightarrow> 'd list \<Rightarrow> 'd list" where
  "update_one q u [] = []"
| "update_one q u (d # ds) = (if q d then u d # ds else d # update_one q u ds)"

definition count_documents :: "'d list \<Rightarrow> nat" where
  "count_documents ds = length ds"

text \<open>\<^verbatim>\<open>doc.get('votes', [])\<close>: the vote list, empty when the key is missing.\<close>

definition get_votes :: "vote list option \<Rightarrow> vote list" where
  "get_votes vs = (case vs of None \<Rightarrow> [] | Some l \<Rightarrow> l)"

text \<open>The update \<^verbatim>\<open>{'$push': {'votes': vote}}\<close>: appends, creating the list when missing.\<close>

definition push_vote :: "vote \<Rightarrow> vote list option \<Rightarrow> vote list option" where
  "push_vote v vs = Some (get_votes vs @ [v])"

section \<open>Prompt length\<close>

text \<open>\<^verbatim>\<open>sep.join(xs)\<close> of Python.\<close>

fun join :: "string \<Rightarrow> string list \<Rightarrow> string" where
  "join sep [] = []"
| "join sep [x] = x"
| "join sep (x # y # ys) = x @ sep @ join sep (y # ys)"

text \<open>
  \<^verbatim>\<open>calculate_prompt_length(words)\<close> reads only the key \<^verbatim>\<open>word\<close> of each element of
  its argument, so the model takes the list of these texts.
\<close>

definition calculate_prompt_length :: "string list \<Rightarrow> nat" where
  "calculate_prompt_length ws =
     (if ws = [] then length BASE_PROMPT
      else (let words_text = join '' '' ws;
                full_prompt = BASE_PROMPT @ words_text
            in length full_prompt))"

text \<open>
  The text the specification describes for a non-empty word list: the base prompt, one
  space, then the words separated by single spaces.
\<close>

definition spec_prompt_text :: "string list \<Rightarrow> string" where
  "spec_prompt_text ws = (if ws = [] then BASE_PROMPT else BASE_PROMPT @ '' '' @ join '' '' ws)"

section \<open>Word manager\<close>

text \<open>
  \<^verbatim>\<open>add_word(word, current_round)\<close>. The session's user identifier, the clock and the
  identifier the store gives the inserted document are arguments; of \<open>current_round\<close>
  the code reads only \<^verbatim>\<open>_id\<close>. The result is the returned pair and the new store.
\<close>

definition add_word ::
  "string \<Rightarrow> time \<Rightarrow> oid \<Rightarrow> string \<Rightarrow> round_doc \<Rightarrow> store \<Rightarrow> (bool \<times> string) \<times> store" where
  "add_word uid now new_id w current_round s =
     (let current_words =
            find_docs (\<lambda>d. round_id d = r_id current_round) (words_collection s);
          new_words = map word current_words @ [w];
          new_total_length = calculate_prompt_length new_words
      in if new_total_length > CHAR_LIMIT
         then ((False, ''Adding this word would exceed the character limit''), s)
         else (let new_doc = \<lparr>w_id = new_id, word = w, word_votes = Some [],
                              w_created_at = now, created_by = uid,
                              round_id = r_id current_round\<rparr>;
                   s1 = s\<lparr>words_collection := insert_one new_doc (words_collection s)\<rparr>;
                   s2 = s1\<lparr>rounds_collection :=
                          update_one (\<lambda>r. r_id r = r_id current_round)
                            (\<lambda>r. r\<lparr>total_chars := new_total_length\<rparr>)
                            (rounds_collection s1)\<rparr>
               in ((True, ''Word added successfully''), s2)))"

text \<open>
  \<^verbatim>\<open>get_current_round_words\<close> asks the store to sort on the raw field \<^verbatim>\<open>votes\<close>,
  descending. How two vote lists compare is the store's business, so the key the store
  sorts on is the argument \<open>key\<close>; the sort puts greater keys first and keeps the
  stored order among equal keys.
\<close>

fun insort_desc :: "('d \<Rightarrow> 'k::linorder) \<Rightarrow> 'd \<Rightarrow> 'd list \<Rightarrow> 'd list" where
  "insort_desc k x [] = [x]"
| "insort_desc k x (y # ys) = (if k y \<le> k x then x # y # ys else y # insort_desc k x ys)"

definition sort_desc :: "('d \<Rightarrow> 'k::linorder) \<Rightarrow> 'd list \<Rightarrow> 'd list" where
  "sort_desc k ds = foldr (insort_desc k) ds []"

definition get_current_round_words ::
  "(vote list option \<Rightarrow> 'k::linorder) \<Rightarrow> store \<Rightarrow> round_doc \<Rightarrow> word_doc list" where
  "get_current_round_words key s current_round =
     sort_desc (\<lambda>d. key (word_votes d))
       (find_docs (\<lambda>d. round_id d = r_id current_round) (words_collection s))"

text \<open>
  The key a MongoDB store uses for a descending sort on an array field: the greatest
  element of the array, an empty array below a missing field, a missing field below
  every embedded document. Two vote documents, which have the same keys in the same
  order, compare by \<^verbatim>\<open>user_id\<close> first and by \<^verbatim>\<open>timestamp\<close> second. The first
  component of the key is the rank of the kind of value.
\<close>

fun bson_desc_key :: "vote list option \<Rightarrow> nat \<times> string \<times> time" where
  "bson_desc_key None = (1, [], 0)"
| "bson_desc_key (Some []) = (0, [], 0)"
| "bson_desc_key (Some (v # vs)) =
     (2, fold (\<lambda>x m. max (user_id x, timestamp x) m) vs (user_id v, timestamp v))"

text \<open>The key of a sort on the number of votes, which the docstring describes.\<close>

definition vote_count_key :: "vote list option \<Rightarrow> nat" where
  "vote_count_key vs = length (get_votes vs)"

section \<open>Voting\<close>

text \<open>
  \<^verbatim>\<open>vote_for_word(word_id)\<close> returns nothing; the result is the new store, or the
  error raised by \<^verbatim>\<open>word.get\<close> when \<^verbatim>\<open>find_one\<close> returned \<^verbatim>\<open>None\<close>.
\<close>

definition vote_for_word :: "string \<Rightarrow> time \<Rightarrow> oid \<Rightarrow> store \<Rightarrow> error + store" where
  "vote_for_word uid now word_id s =
     (case find_one (\<lambda>d. w_id d = word_id) (words_collection s) of
        None \<Rightarrow> Inl AttributeError
      | Some wd \<Rightarrow>
          if uid \<notin> set (map user_id (get_votes (word_votes wd)))
          then (let v = \<lparr>user_id = uid, timestamp = now\<rparr>
                in Inr (s\<lparr>words_collection :=
                          update_one (\<lambda>d. w_id d = word_id)
                            (\<lambda>d. d\<lparr>word_votes := push_vote v (word_votes d)\<rparr>)
                            (words_collection s)\<rparr>))
          else Inr s)"

text \<open>\<^verbatim>\<open>vote_for_song(round_id)\<close>: the returned flag and the new store.\<close>

definition vote_for_song :: "string \<Rightarrow> time \<Rightarrow> oid \<Rightarrow> store \<Rightarrow> bool \<times> store" where
  "vote_for_song uid now rid s =
     (case find_one (\<lambda>r. r_id r = rid) (rounds_collection s) of
        None \<Rightarrow> (False, s)
      | Some rnd \<Rightarrow>
          if generated_songs rnd = None then (False, s)
          else (let (rnd1, s1) =
                      (if round_votes rnd = None
                       then (rnd\<lparr>round_votes := Some []\<rparr>,
                             s\<lparr>rounds_collection :=
                                update_one (\<lambda>r. r_id r = rid)
                                  (\<lambda>r. r\<lparr>round_votes := Some []\<rparr>)
                                  (rounds_collection s)\<rparr>)
                       else (rnd, s))
                in if uid \<notin> set (map user_id (get_votes (round_votes rnd1)))
                   then (let v = \<lparr>user_id = uid, timestamp = now\<rparr>
                         in (True, s1\<lparr>rounds_collection :=
                                      update_one (\<lambda>r. r_id r = rid)
                                        (\<lambda>r. r\<lparr>round_votes := push_vote v (round_votes r)\<rparr>)
                                        (rounds_collection s1)\<rparr>))
                   else (False, s1)))"

section \<open>Round manager\<close>

text \<open>
  \<^verbatim>\<open>get_current_round()\<close>: the returned round and the new store. The clock and the
  identifier the store gives an inserted round are arguments.
\<close>

definition get_current_round :: "time \<Rightarrow> oid \<Rightarrow> store \<Rightarrow> round_doc \<times> store" where
  "get_current_round now new_id s =
     (case find_one (\<lambda>r. status r = ''active'') (rounds_collection s) of
        Some current_round \<Rightarrow> (current_round, s)
      | None \<Rightarrow>
          (let current_round =
                 \<lparr>r_id = new_id,
                  round_number = int (count_documents (rounds_collection s)) + 1,
                  status = ''active'',
                  r_created_at = now,
                  total_chars = length BASE_PROMPT,
                  round_votes = None,
                  generated_songs = None\<rparr>
           in (current_round,
               s\<lparr>rounds_collection := insert_one current_round (rounds_collection s)\<rparr>)))"

text \<open>
  \<^verbatim>\<open>get_previous_rounds()\<close>: each completed round paired with its \<^verbatim>\<open>vote_count\<close>,
  sorted by Python's stable \<^verbatim>\<open>sort\<close> on the key \<^verbatim>\<open>(-vote_count, -round_number)\<close>;
  tuples compare lexicographically. The store is only read.
\<close>

definition get_previous_rounds :: "store \<Rightarrow> (round_doc \<times> nat) list" where
  "get_previous_rounds s =
     (let previous_rounds =
            find_docs (\<lambda>r. status r = ''completed'') (rounds_collection s);
          counted = map (\<lambda>r. (r, length (get_votes (round_votes r)))) previous_rounds
      in sort_key (\<lambda>(r, vote_count). (- int vote_count, - round_number r)) counted)"

definition get_current_prompt ::
  "(vote list option \<Rightarrow> 'k::linorder) \<Rightarrow> store \<Rightarrow> round_doc \<Rightarrow> string" where
  "get_current_prompt key s current_round =
     (let ws = get_current_round_words key s current_round
      in if ws = [] then BASE_PROMPT
         else (let words_text = join '' '' (map word ws)
               in BASE_PROMPT @ words_text))"

section \<open>Sequences of calls\<close>

datatype operation =
    GetCurrentRound time oid
  | AddWord string time oid string round_doc
  | VoteForWord string time oid
  | VoteForSong string time oid
  | GetPreviousRounds

text \<open>The store after one call; a call that raises leaves the store as it was.\<close>

fun step :: "operation \<Rightarrow> store \<Rightarrow> store" where
  "step (GetCurrentRound now new_id) s = snd (get_current_round now new_id s)"
| "step (AddWord uid now new_id w r) s = snd (add_word uid now new_id w r s)"
| "step (VoteForWord uid now wid) s =
     (case vote_for_word uid now wid s of Inl e \<Rightarrow> s | Inr s' \<Rightarrow> s')"
| "step (VoteForSong uid now rid) s = snd (vote_for_song uid now rid s)"
| "step GetPreviousRounds s = s"

definition run :: "operation list \<Rightarrow> store \<Rightarrow> store" where
  "run ops s = fold step ops s"

definition active_rounds :: "store \<Rightarrow> round_doc list" where
  "active_rounds s = filter (\<lambda>r. status r = ''active'') (rounds_collection s)"

definition at_most_one_active :: "store \<Rightarrow> bool" where
  "at_most_one_active s = (length (active_rounds s) \<le> 1)"

section \<open>Notions used in the statements\<close>

text \<open>The words of a round in stored order, as \<^verbatim>\<open>add_word\<close> reads them.\<close>

definition words_of_round :: "store \<Rightarrow> round_doc \<Rightarrow> word_doc list" where
  "words_of_round s r = find_docs (\<lambda>d. round_id d = r_id r) (words_collection s)"

text \<open>Every stored round has a cached length of at most the ceiling.\<close>

definition within_limit :: "store \<Rightarrow> bool" where
  "within_limit s = list_all (\<lambda>r. total_chars r \<le> CHAR_LIMIT) (rounds_collection s)"

text \<open>The entries of one user in a vote list.\<close>

definition user_votes :: "string \<Rightarrow> vote list option \<Rightarrow> vote list" where
  "user_votes uid vs = filter (\<lambda>v. user_id v = uid) (get_votes vs)"

text \<open>Two calls of \<^verbatim>\<open>vote_for_word\<close> in a row, by the same user for the same word.\<close>

definition vote_twice :: "string \<Rightarrow> time \<Rightarrow> time \<Rightarrow> oid \<Rightarrow> store \<Rightarrow> error + store" where
  "vote_twice uid t1 t2 wid s =
     (case vote_for_word uid t1 wid s of Inl e \<Rightarrow> Inl e | Inr s1 \<Rightarrow> vote_for_word uid t2 wid s1)"

text \<open>The user is among the voters of the round that \<^verbatim>\<open>find_one\<close> returns for the identifier.\<close>

definition song_voter :: "string \<Rightarrow> oid \<Rightarrow> store \<Rightarrow> bool" where
  "song_voter uid rid s =
     (case find_one (\<lambda>r. r_id r = rid) (rounds_collection s) of
        None \<Rightarrow> False
      | Some r \<Rightarrow> uid \<in> set (map user_id (get_votes (round_votes r))))"

text \<open>The call is one of \<^verbatim>\<open>get_current_round\<close> on a store without an active round.\<close>

fun creates_round :: "operation \<Rightarrow> store \<Rightarrow> bool" where
  "creates_round (GetCurrentRound now new_id) s = (active_rounds s = [])"
| "creates_round op s = False"

subsection \<open>Example documents\<close>

text \<open>An active round with the word ``fire'', and a store without documents.\<close>

definition ex_round :: round_doc where
  "ex_round = \<lparr>r_id = 1, round_number = 1, status = ''active'', r_created_at = 100,
               total_chars = 68, round_votes = None, generated_songs = None\<rparr>"

definition ex_word :: word_doc where
  "ex_word = \<lparr>w_id = 10, word = ''fire'', word_votes = Some [], w_created_at = 101,
              created_by = ''65a1f0c2e4b0a1b2c3d4e5f6'', round_id = 1\<rparr>"

definition ex_store :: store where
  "ex_store = \<lparr>words_collection = [ex_word], rounds_collection = [ex_round\<lparr>total_chars := 72\<rparr>]\<rparr>"

definition empty_store :: store where
  "empty_store = \<lparr>words_collection = [], rounds_collection = []\<rparr>"

text \<open>A completed round with generated songs and no vote list yet.\<close>

definition ex_done_round :: round_doc where
  "ex_done_round = \<lparr>r_id = 5, round_number = 1, status = ''completed'', r_created_at = 50,
     total_chars = 77, round_votes = None,
     generated_songs = Some [\<lparr>lyric = ''la'', audio_url = ''https://cdn.example/1.mp3''\<rparr>,
                             \<lparr>lyric = ''la la'', audio_url = ''https://cdn.example/2.mp3''\<rparr>]\<rparr>"

definition ex_song_store :: store where
  "ex_song_store = \<lparr>words_collection = [], rounds_collection = [ex_done_round]\<rparr>"

text \<open>
  A round with the words ``fire'', with two votes, and ``gold'', with five votes by users
  whose identifiers are smaller than those of the voters for ``fire''.
\<close>

definition ex_voters :: "string list \<Rightarrow> vote list" where
  "ex_voters us = map (\<lambda>u. \<lparr>user_id = u, timestamp = 300\<rparr>) us"

definition ex_fire :: word_doc where
  "ex_fire = \<lparr>w_id = 20, word = ''fire'',
     word_votes = Some (ex_voters [''65a1f0c2e4b0a1b2c3d4e5f8'', ''65a1f0c2e4b0a1b2c3d4e5f9'']),
     w_created_at = 101, created_by = ''65a1f0c2e4b0a1b2c3d4e5f6'', round_id = 1\<rparr>"

definition ex_gold :: word_doc where
  "ex_gold = \<lparr>w_id = 21, word = ''gold'',
     word_votes = Some (ex_voters [''65a1f0c2e4b0a1b2c3d4e5f1'', ''65a1f0c2e4b0a1b2c3d4e5f2'',
       ''65a1f0c2e4b0a1b2c3d4e5f3'', ''65a1f0c2e4b0a1b2c3d4e5f4'', ''65a1f0c2e4b0a1b2c3d4e5f5'']),
     w_created_at = 102, created_by = ''65a1f0c2e4b0a1b2c3d4e5f6'', round_id = 1\<rparr>"

definition ex_vote_store :: store where
  "ex_vote_store = \<lparr>words_collection = [ex_fire, ex_gold],
                     rounds_collection = [ex_round\<lparr>total_chars := 77\<rparr>]\<rparr>"

text \<open>
  Completed rounds #1 with three votes, #2 with one vote and #3 with three votes, stored
  in this order before the active round #4.
\<close>

definition ex_completed :: "oid \<Rightarrow> int \<Rightarrow> vote list option \<Rightarrow> round_doc" where
  "ex_completed i n vs = \<lparr>r_id = i, round_number = n, status = ''completed'', r_created_at = 50,
     total_chars = 77, round_votes = vs, generated_songs = None\<rparr>"

definition ex_prev_store :: store where
  "ex_prev_store = \<lparr>words_collection = [],
     rounds_collection =
       [ex_completed 31 1 (Some (ex_voters [''65a1f0c2e4b0a1b2c3d4e5f1'',
          ''65a1f0c2e4b0a1b2c3d4e5f2'', ''65a1f0c2e4b0a1b2c3d4e5f3''])),
        ex_completed 32 2 (Some (ex_voters [''65a1f0c2e4b0a1b2c3d4e5f1''])),
        ex_completed 33 3 (Some (ex_voters [''65a1f0c2e4b0a1b2c3d4e5f2'',
          ''65a1f0c2e4b0a1b2c3d4e5f3'', ''65a1f0c2e4b0a1b2c3d4e5f4''])),
        ex_round\<lparr>r_id := 34, round_number := 4\<rparr>]\<rparr>"

section \<open>Facts about the store operations\<close>

lemma length_update_one [simp]: "length (update_one q u ds) = length ds"
  by (induction ds) simp_all

lemma find_one_None_iff: "find_one q ds = None \<longleftrightarrow> (\<forall>d \<in> set ds. \<not> q d)"
  by (induction ds) simp_all

lemma find_one_Some_D: "find_one q ds = Some d \<Longrightarrow> d \<in> set ds \<and> q d"
  by (induction ds) (auto split: if_splits)

lemma find_one_update_one:
  "(\<And>d. q d \<Longrightarrow> q (u d)) \<Longrightarrow> find_one q (update_one q u ds) = map_option u (find_one q ds)"
  by (induction ds) simp_all

lemma filter_update_one_length:
  "(\<And>d. p (u d) = p d) \<Longrightarrow> length (filter p (update_one q u ds)) = length (filter p ds)"
  by (induction ds) simp_all

lemma list_all2_update_one:
  "(\<And>d. d \<in> set ds \<Longrightarrow> q d \<Longrightarrow> R d (u d)) \<Longrightarrow> (\<And>d. R d d)
     \<Longrightarrow> list_all2 R ds (update_one q u ds)"
  by (induction ds) (auto intro: list.rel_refl_strong)

lemma list_all_update_one:
  "list_all P ds \<Longrightarrow> (\<And>d. P d \<Longrightarrow> P (u d)) \<Longrightarrow> list_all P (update_one q u ds)"
  by (induction ds) simp_all

lemma update_one_found:
  "find_one q ds = Some d \<Longrightarrow>
     list_all2 (\<lambda>x y. y = x \<or> (x = d \<and> y = u d)) ds (update_one q u ds)"
  by (induction ds) (auto intro: list.rel_refl_strong split: if_splits)

section \<open>Properties of the prompt length\<close>

lemma length_BASE_PROMPT: "length BASE_PROMPT = 68"
  by (simp add: BASE_PROMPT_def)

lemma length_join:
  "ws \<noteq> [] \<Longrightarrow> length (join sep ws) = sum_list (map length ws) + (length ws - 1) * length sep"
  by (induction sep ws rule: join.induct) simp_all

text \<open>
  C2, as the specification states it, fails for every non-empty word list: the code puts
  no separator between the base prompt and the first word, since the base prompt itself
  ends with a space. Here at the one-word list \<open>[''a'']\<close>: 69 characters, not 70.
\<close>

theorem calculate_prompt_length_spec_counterexample:
  "calculate_prompt_length [''a''] = 69 \<and> length (spec_prompt_text [''a'']) = 70
   \<and> calculate_prompt_length [''a''] \<noteq> length (spec_prompt_text [''a''])"
  by (simp add: calculate_prompt_length_def spec_prompt_text_def length_BASE_PROMPT)

text \<open>
  C2, amended: the length of the empty list is the length of the base prompt (68), and
  for a non-empty list it is the length of the base prompt, which ends with a space,
  directly followed by the words separated by single spaces; this is one less than the
  length of the text the specification describes.
\<close>

theorem calculate_prompt_length_correct:
  "calculate_prompt_length [] = length BASE_PROMPT
   \<and> calculate_prompt_length ws = length (BASE_PROMPT @ join '' '' ws)
   \<and> last BASE_PROMPT = CHR '' ''
   \<and> (ws \<noteq> [] \<longrightarrow> calculate_prompt_length ws
         = 68 + sum_list (map length ws) + (length ws - 1)
       \<and> Suc (calculate_prompt_length ws) = length (spec_prompt_text ws))"
proof -
  have e: "calculate_prompt_length [] = length BASE_PROMPT"
    by (simp add: calculate_prompt_length_def)
  have j: "calculate_prompt_length ws = length (BASE_PROMPT @ join '' '' ws)"
    by (cases ws) (simp_all add: calculate_prompt_length_def)
  have l: "last BASE_PROMPT = CHR '' ''"
    by (simp add: BASE_PROMPT_def)
  have n: "calculate_prompt_length ws = 68 + sum_list (map length ws) + (length ws - 1)"
    if "ws \<noteq> []"
    using that by (simp add: j length_join length_BASE_PROMPT)
  have s: "Suc (calculate_prompt_length ws) = length (spec_prompt_text ws)" if "ws \<noteq> []"
    using that by (simp add: j spec_prompt_text_def)
  from e j l n s show ?thesis by blast
qed

theorem calculate_prompt_length_correct_witness:
  "calculate_prompt_length [''fire'', ''gold''] = 77
   \<and> Suc (calculate_prompt_length [''fire'', ''gold'']) = length (spec_prompt_text [''fire'', ''gold''])"
  using calculate_prompt_length_correct [of "[''fire'', ''gold'']"] by simp

section \<open>The words of the current round and the prompt\<close>

lemma mset_insort_desc: "mset (insort_desc k x xs) = add_mset x (mset xs)"
  by (induction xs) simp_all

lemma mset_sort_desc: "mset (sort_desc k xs) = mset xs"
  by (induction xs) (simp_all add: sort_desc_def mset_insort_desc)

lemma set_insort_desc: "set (insort_desc k x xs) = insert x (set xs)"
  by (induction xs) auto

lemma sorted_insort_desc:
  "sorted_wrt (\<lambda>a b. k b \<le> k a) xs \<Longrightarrow> sorted_wrt (\<lambda>a b. k b \<le> k a) (insort_desc k x xs)"
  by (induction xs) (auto simp: set_insort_desc)

lemma sorted_sort_desc: "sorted_wrt (\<lambda>a b. k b \<le> k a) (sort_desc k xs)"
  by (induction xs) (simp_all add: sort_desc_def sorted_insort_desc)

text \<open>
  Whatever key the store sorts on, \<^verbatim>\<open>get_current_round_words\<close> returns the words of the
  round, each once, with keys descending, and \<^verbatim>\<open>get_current_prompt\<close> is the base
  prompt when the round has no words and otherwise the base prompt followed by the texts
  of these words in this order, separated by single spaces.
\<close>

lemma get_current_round_words_sorted:
  "mset (get_current_round_words key s r) = mset (words_of_round s r)
   \<and> sorted_wrt (\<lambda>a b. key (word_votes b) \<le> key (word_votes a))
       (get_current_round_words key s r)"
  by (simp add: get_current_round_words_def words_of_round_def mset_sort_desc sorted_sort_desc)

lemma get_current_prompt_eq:
  "get_current_prompt key s r =
     (if words_of_round s r = [] then BASE_PROMPT
      else BASE_PROMPT @ join '' '' (map word (get_current_round_words key s r)))"
proof -
  have "(get_current_round_words key s r = []) = (words_of_round s r = [])"
    using get_current_round_words_sorted [of key s r] by (metis mset_zero_iff)
  then show ?thesis
    by (simp add: get_current_prompt_def Let_def)
qed

text \<open>
  The length of the prompt does not depend on the order of the words, so the prompt of a
  round is as long as \<^verbatim>\<open>calculate_prompt_length\<close> says for its words in stored order.
\<close>

lemma calculate_prompt_length_sum:
  "calculate_prompt_length ws
     = (if ws = [] then 68 else 68 + sum_list (map length ws) + (length ws - 1))"
  by (simp add: calculate_prompt_length_def length_join length_BASE_PROMPT)

lemma calculate_prompt_length_mset:
  assumes "mset ws = mset ws'"
  shows "calculate_prompt_length ws = calculate_prompt_length ws'"
proof -
  from assms have "mset (map length ws) = mset (map length ws')"
    by simp
  then have "sum_mset (mset (map length ws)) = sum_mset (mset (map length ws'))"
    by (rule arg_cong)
  then have s: "sum_list (map length ws) = sum_list (map length ws')"
    by (simp only: sum_mset_sum_list)
  from assms have l: "length ws = length ws'"
    by (rule mset_eq_length)
  then have "(ws = []) = (ws' = [])"
    by auto
  with s l show ?thesis
    by (simp add: calculate_prompt_length_sum)
qed

lemma length_get_current_prompt:
  "length (get_current_prompt key s r) = calculate_prompt_length (map word (words_of_round s r))"
proof (cases "words_of_round s r = []")
  case True
  then show ?thesis
    by (simp add: get_current_prompt_eq calculate_prompt_length_def)
next
  case False
  have m: "mset (map word (get_current_round_words key s r)) = mset (map word (words_of_round s r))"
    using get_current_round_words_sorted [of key s r] by simp
  from False have "get_current_round_words key s r \<noteq> []"
    using get_current_round_words_sorted [of key s r] by (metis mset_zero_iff)
  then have "length (get_current_prompt key s r)
      = calculate_prompt_length (map word (get_current_round_words key s r))"
    using False by (simp add: get_current_prompt_eq calculate_prompt_length_def)
  with calculate_prompt_length_mset [OF m] show ?thesis by simp
qed

section \<open>The character ceiling\<close>

lemma add_word_reject:
  "CHAR_LIMIT < calculate_prompt_length (map word (words_of_round s r) @ [w]) \<Longrightarrow>
   add_word uid now nid w r s = ((False, ''Adding this word would exceed the character limit''), s)"
  by (simp add: add_word_def words_of_round_def Let_def)

lemma add_word_rounds_rel:
  "list_all2 (\<lambda>x y. y = x \<or> (r_id y = r_id r \<and> total_chars y \<le> CHAR_LIMIT))
     (rounds_collection s) (rounds_collection (snd (add_word uid now nid w r s)))"
  by (auto simp: add_word_def Let_def list_all2_refl intro!: list_all2_update_one)

lemma add_word_within: "within_limit s \<Longrightarrow> within_limit (snd (add_word uid now nid w r s))"
  by (auto simp: add_word_def Let_def within_limit_def intro!: list_all_update_one)

lemma get_current_round_within:
  "within_limit s \<Longrightarrow> within_limit (snd (get_current_round now nid s))"
  by (auto simp: get_current_round_def Let_def within_limit_def insert_one_def
      length_BASE_PROMPT CHAR_LIMIT_def split: option.splits)

lemma vote_for_word_within:
  "within_limit s \<Longrightarrow> vote_for_word uid now wid s = Inr s' \<Longrightarrow> within_limit s'"
  by (auto simp: vote_for_word_def Let_def within_limit_def split: option.splits if_splits)

lemma vote_for_song_within:
  "within_limit s \<Longrightarrow> within_limit (snd (vote_for_song uid now rid s))"
  by (auto simp: vote_for_song_def Let_def within_limit_def
      split: option.splits if_splits intro!: list_all_update_one)

lemma step_within: "within_limit s \<Longrightarrow> within_limit (step op s)"
  by (cases op) (auto simp: add_word_within get_current_round_within vote_for_song_within
      dest: vote_for_word_within split: sum.splits)

lemma run_within: "within_limit s \<Longrightarrow> within_limit (run ops s)"
  unfolding run_def by (induction ops arbitrary: s) (simp_all add: step_within)

lemma add_word_accept:
  assumes "calculate_prompt_length (map word (words_of_round s r) @ [w]) \<le> CHAR_LIMIT"
  shows "add_word uid now nid w r s =
     ((True, ''Word added successfully''),
      \<lparr>words_collection = words_collection s @
          [\<lparr>w_id = nid, word = w, word_votes = Some [], w_created_at = now,
            created_by = uid, round_id = r_id r\<rparr>],
       rounds_collection = update_one (\<lambda>x. r_id x = r_id r)
          (\<lambda>x. x\<lparr>total_chars := calculate_prompt_length (map word (words_of_round s r) @ [w])\<rparr>)
          (rounds_collection s)\<rparr>)"
  using assms by (simp add: add_word_def words_of_round_def Let_def insert_one_def)

lemma add_word_prompt_length:
  "length (get_current_prompt key (snd (add_word uid now nid w r s)) r) \<le> CHAR_LIMIT
   \<or> snd (add_word uid now nid w r s) = s"
proof (cases "CHAR_LIMIT < calculate_prompt_length (map word (words_of_round s r) @ [w])")
  case True
  then show ?thesis by (simp add: add_word_reject)
next
  case False
  then have fit: "calculate_prompt_length (map word (words_of_round s r) @ [w]) \<le> CHAR_LIMIT"
    by simp
  have "map word (words_of_round (snd (add_word uid now nid w r s)) r)
      = map word (words_of_round s r) @ [w]"
    by (simp add: add_word_accept [OF fit] words_of_round_def find_docs_def)
  with fit show ?thesis
    by (simp add: length_get_current_prompt)
qed

text \<open>
  C1: when the recomputed length exceeds the ceiling of 200, \<^verbatim>\<open>add_word\<close> returns
  failure with its message and the store, hence the round's words and cached
  \<^verbatim>\<open>total_chars\<close>, is unchanged. A call changes no stored round other than to a length
  of at most 200, and after it the prompt of the round has at most 200 characters unless
  the store is as before; so a store whose cached lengths are within the ceiling stays so
  under \<^verbatim>\<open>add_word\<close> and under every sequence of calls.
\<close>

theorem add_word_limit:
  "(CHAR_LIMIT < calculate_prompt_length (map word (words_of_round s r) @ [w]) \<longrightarrow>
      add_word uid now nid w r s
        = ((False, ''Adding this word would exceed the character limit''), s))
   \<and> list_all2 (\<lambda>x y. y = x \<or> (r_id y = r_id r \<and> total_chars y \<le> CHAR_LIMIT))
        (rounds_collection s) (rounds_collection (snd (add_word uid now nid w r s)))
   \<and> (length (get_current_prompt key (snd (add_word uid now nid w r s)) r) \<le> CHAR_LIMIT
        \<or> snd (add_word uid now nid w r s) = s)
   \<and> (within_limit s \<longrightarrow> within_limit (snd (add_word uid now nid w r s)))
   \<and> (within_limit s \<longrightarrow> within_limit (run ops s))"
  using add_word_reject [of s r w uid now nid] add_word_rounds_rel [of r s uid now nid w]
    add_word_prompt_length [of key uid now nid w r s]
    add_word_within [of s uid now nid w r] run_within [of s ops]
  by blast

theorem add_word_limit_witness:
  "CHAR_LIMIT < calculate_prompt_length
       (map word (words_of_round ex_store ex_round) @ [replicate 128 (CHR ''a'')])
   \<and> calculate_prompt_length
       (map word (words_of_round ex_store ex_round) @ [replicate 128 (CHR ''a'')]) = 201
   \<and> add_word ''65a1f0c2e4b0a1b2c3d4e5f6'' 102 11 (replicate 128 (CHR ''a'')) ex_round ex_store
        = ((False, ''Adding this word would exceed the character limit''), ex_store)
   \<and> within_limit ex_store
   \<and> within_limit (run [AddWord ''65a1f0c2e4b0a1b2c3d4e5f6'' 102 11 ''gold'' ex_round] ex_store)"
proof -
  have l: "calculate_prompt_length
       (map word (words_of_round ex_store ex_round) @ [replicate 128 (CHR ''a'')]) = 201"
    by (simp add: calculate_prompt_length_def words_of_round_def find_docs_def ex_store_def
        ex_word_def ex_round_def length_BASE_PROMPT)
  have w: "within_limit ex_store"
    by (simp add: within_limit_def ex_store_def CHAR_LIMIT_def)
  from l have h: "CHAR_LIMIT < calculate_prompt_length
       (map word (words_of_round ex_store ex_round) @ [replicate 128 (CHR ''a'')])"
    by (simp add: CHAR_LIMIT_def)
  show ?thesis
    using h l w
      add_word_limit [where s = ex_store and r = ex_round and w = "replicate 128 (CHR ''a'')"
        and uid = "''65a1f0c2e4b0a1b2c3d4e5f6''" and now = 102 and nid = 11
        and key = vote_count_key
        and ops = "[AddWord ''65a1f0c2e4b0a1b2c3d4e5f6'' 102 11 ''gold'' ex_round]"]
    by blast
qed

section \<open>Adding a word within the ceiling\<close>

text \<open>
  C9: when the recomputed length is at most 200, \<^verbatim>\<open>add_word\<close> returns success with its
  message and appends exactly one word document, with an empty vote list, the session's
  user as creator, the creation time and the round's identifier. No round is added or
  removed; the stored round with that identifier gets the new length as
  \<^verbatim>\<open>total_chars\<close>, which equals \<^verbatim>\<open>calculate_prompt_length\<close> of the round's words
  after the call. The text is not compared with the words already there: the number of
  the round's words with the same text grows by one.
\<close>

theorem add_word_success:
  assumes fit: "calculate_prompt_length (map word (words_of_round s r) @ [w]) \<le> CHAR_LIMIT"
  shows "fst (add_word uid now nid w r s) = (True, ''Word added successfully'')
    \<and> words_collection (snd (add_word uid now nid w r s)) = words_collection s @
          [\<lparr>w_id = nid, word = w, word_votes = Some [], w_created_at = now,
            created_by = uid, round_id = r_id r\<rparr>]
    \<and> length (rounds_collection (snd (add_word uid now nid w r s)))
        = length (rounds_collection s)
    \<and> (\<forall>r0. find_one (\<lambda>x. r_id x = r_id r) (rounds_collection s) = Some r0 \<longrightarrow>
          find_one (\<lambda>x. r_id x = r_id r) (rounds_collection (snd (add_word uid now nid w r s)))
            = Some (r0\<lparr>total_chars := calculate_prompt_length
                        (map word (words_of_round (snd (add_word uid now nid w r s)) r))\<rparr>))
    \<and> length (filter (\<lambda>d. word d = w) (words_of_round (snd (add_word uid now nid w r s)) r))
        = Suc (length (filter (\<lambda>d. word d = w) (words_of_round s r)))"
proof -
  let ?s' = "snd (add_word uid now nid w r s)"
  let ?d = "\<lparr>w_id = nid, word = w, word_votes = Some [], w_created_at = now,
            created_by = uid, round_id = r_id r\<rparr>"
  note eq = add_word_accept [OF fit, of uid now nid]
  have w: "words_of_round ?s' r = words_of_round s r @ [?d]"
    by (simp add: eq words_of_round_def find_docs_def)
  have a: "fst (add_word uid now nid w r s) = (True, ''Word added successfully'')"
    by (simp add: eq)
  have b: "words_collection ?s' = words_collection s @ [?d]"
    by (simp add: eq)
  have c: "length (rounds_collection ?s') = length (rounds_collection s)"
    by (simp add: eq)
  have d: "find_one (\<lambda>x. r_id x = r_id r) (rounds_collection ?s')
            = Some (r0\<lparr>total_chars := calculate_prompt_length (map word (words_of_round ?s' r))\<rparr>)"
    if "find_one (\<lambda>x. r_id x = r_id r) (rounds_collection s) = Some r0" for r0
    unfolding w using that by (simp add: eq find_one_update_one)
  have e: "length (filter (\<lambda>d. word d = w) (words_of_round ?s' r))
        = Suc (length (filter (\<lambda>d. word d = w) (words_of_round s r)))"
    unfolding w by simp
  from a b c d e show ?thesis by blast
qed

theorem add_word_success_witness:
  "calculate_prompt_length (map word (words_of_round ex_store ex_round) @ [''fire'']) \<le> CHAR_LIMIT
   \<and> add_word ''65a1f0c2e4b0a1b2c3d4e5f7'' 102 11 ''fire'' ex_round ex_store
       = ((True, ''Word added successfully''),
          \<lparr>words_collection = [ex_word,
              \<lparr>w_id = 11, word = ''fire'', word_votes = Some [], w_created_at = 102,
               created_by = ''65a1f0c2e4b0a1b2c3d4e5f7'', round_id = 1\<rparr>],
           rounds_collection = [ex_round\<lparr>total_chars := 77\<rparr>]\<rparr>)
   \<and> find_one (\<lambda>x. r_id x = r_id ex_round) (rounds_collection
         (snd (add_word ''65a1f0c2e4b0a1b2c3d4e5f7'' 102 11 ''fire'' ex_round ex_store)))
       = Some (ex_round\<lparr>total_chars := calculate_prompt_length [''fire'', ''fire'']\<rparr>)"
proof -
  have h: "calculate_prompt_length (map word (words_of_round ex_store ex_round) @ [''fire''])
            \<le> CHAR_LIMIT"
    by (simp add: calculate_prompt_length_def words_of_round_def find_docs_def ex_store_def
        ex_word_def ex_round_def length_BASE_PROMPT CHAR_LIMIT_def)
  have f: "find_one (\<lambda>x. r_id x = r_id ex_round) (rounds_collection ex_store)
            = Some (ex_round\<lparr>total_chars := 72\<rparr>)"
    by (simp add: ex_store_def ex_round_def)
  have v: "add_word ''65a1f0c2e4b0a1b2c3d4e5f7'' 102 11 ''fire'' ex_round ex_store
       = ((True, ''Word added successfully''),
          \<lparr>words_collection = [ex_word,
              \<lparr>w_id = 11, word = ''fire'', word_votes = Some [], w_created_at = 102,
               created_by = ''65a1f0c2e4b0a1b2c3d4e5f7'', round_id = 1\<rparr>],
           rounds_collection = [ex_round\<lparr>total_chars := 77\<rparr>]\<rparr>)"
    by (simp add: add_word_def calculate_prompt_length_def find_docs_def insert_one_def
        ex_store_def ex_word_def ex_round_def length_BASE_PROMPT CHAR_LIMIT_def)
  have w: "map word (words_of_round
       (snd (add_word ''65a1f0c2e4b0a1b2c3d4e5f7'' 102 11 ''fire'' ex_round ex_store)) ex_round)
       = [''fire'', ''fire'']"
    unfolding v by (simp add: words_of_round_def find_docs_def ex_word_def ex_round_def)
  from add_word_success [OF h, of "''65a1f0c2e4b0a1b2c3d4e5f7''" 102 11] f
  have "find_one (\<lambda>x. r_id x = r_id ex_round) (rounds_collection
         (snd (add_word ''65a1f0c2e4b0a1b2c3d4e5f7'' 102 11 ''fire'' ex_round ex_store)))
       = Some (ex_round\<lparr>total_chars := calculate_prompt_length [''fire'', ''fire'']\<rparr>)"
    unfolding w by simp
  with h v show ?thesis by blast
qed

section \<open>The current round\<close>

text \<open>
  C6: when a round with status \<^verbatim>\<open>active\<close> is stored, \<^verbatim>\<open>get_current_round\<close> returns
  the first such round and leaves the store as it is. When none is stored it appends and
  returns a new round whose number is the number of stored rounds plus one, with status
  \<^verbatim>\<open>active\<close> and \<^verbatim>\<open>total_chars\<close> the length of the base prompt; on a store
  without rounds this is round 1.
\<close>

theorem get_current_round_correct:
  "(\<forall>r. find_one (\<lambda>r. status r = ''active'') (rounds_collection s) = Some r \<longrightarrow>
       get_current_round now nid s = (r, s) \<and> status r = ''active''
       \<and> r \<in> set (rounds_collection s))
   \<and> ((\<exists>r \<in> set (rounds_collection s). status r = ''active'') \<longrightarrow>
       snd (get_current_round now nid s) = s
       \<and> status (fst (get_current_round now nid s)) = ''active''
       \<and> fst (get_current_round now nid s) \<in> set (rounds_collection s))
   \<and> ((\<forall>r \<in> set (rounds_collection s). status r \<noteq> ''active'') \<longrightarrow>
       get_current_round now nid s =
         (\<lparr>r_id = nid, round_number = int (length (rounds_collection s)) + 1,
           status = ''active'', r_created_at = now, total_chars = length BASE_PROMPT,
           round_votes = None, generated_songs = None\<rparr>,
          s\<lparr>rounds_collection := rounds_collection s @
            [\<lparr>r_id = nid, round_number = int (length (rounds_collection s)) + 1,
              status = ''active'', r_created_at = now, total_chars = length BASE_PROMPT,
              round_votes = None, generated_songs = None\<rparr>]\<rparr>))
   \<and> (rounds_collection s = [] \<longrightarrow>
        round_number (fst (get_current_round now nid s)) = 1
        \<and> status (fst (get_current_round now nid s)) = ''active''
        \<and> total_chars (fst (get_current_round now nid s)) = length BASE_PROMPT
        \<and> rounds_collection (snd (get_current_round now nid s))
            = [fst (get_current_round now nid s)])"
proof -
  have a: "get_current_round now nid s = (r, s) \<and> status r = ''active''
      \<and> r \<in> set (rounds_collection s)"
    if "find_one (\<lambda>r. status r = ''active'') (rounds_collection s) = Some r" for r
    using that find_one_Some_D [OF that] by (simp add: get_current_round_def)
  have a': "snd (get_current_round now nid s) = s
       \<and> status (fst (get_current_round now nid s)) = ''active''
       \<and> fst (get_current_round now nid s) \<in> set (rounds_collection s)"
    if "\<exists>r \<in> set (rounds_collection s). status r = ''active''"
  proof -
    from that have "find_one (\<lambda>r. status r = ''active'') (rounds_collection s) \<noteq> None"
      by (simp add: find_one_None_iff)
    then obtain r where "find_one (\<lambda>r. status r = ''active'') (rounds_collection s) = Some r"
      by blast
    from a [OF this] show ?thesis by simp
  qed
  have b: "get_current_round now nid s =
         (\<lparr>r_id = nid, round_number = int (length (rounds_collection s)) + 1,
           status = ''active'', r_created_at = now, total_chars = length BASE_PROMPT,
           round_votes = None, generated_songs = None\<rparr>,
          s\<lparr>rounds_collection := rounds_collection s @
            [\<lparr>r_id = nid, round_number = int (length (rounds_collection s)) + 1,
              status = ''active'', r_created_at = now, total_chars = length BASE_PROMPT,
              round_votes = None, generated_songs = None\<rparr>]\<rparr>)"
    if "\<forall>r \<in> set (rounds_collection s). status r \<noteq> ''active''"
  proof -
    from that have "find_one (\<lambda>r. status r = ''active'') (rounds_collection s) = None"
      by (simp add: find_one_None_iff)
    then show ?thesis
      by (simp add: get_current_round_def Let_def insert_one_def count_documents_def)
  qed
  have c: "round_number (fst (get_current_round now nid s)) = 1
        \<and> status (fst (get_current_round now nid s)) = ''active''
        \<and> total_chars (fst (get_current_round now nid s)) = length BASE_PROMPT
        \<and> rounds_collection (snd (get_current_round now nid s))
            = [fst (get_current_round now nid s)]"
    if "rounds_collection s = []"
    using that by (simp add: get_current_round_def Let_def insert_one_def count_documents_def)
  from a a' b c show ?thesis by blast
qed

theorem get_current_round_correct_witness:
  "find_one (\<lambda>r. status r = ''active'') (rounds_collection ex_store)
     = Some (ex_round\<lparr>total_chars := 72\<rparr>)
   \<and> get_current_round 103 2 ex_store = (ex_round\<lparr>total_chars := 72\<rparr>, ex_store)
   \<and> rounds_collection empty_store = []
   \<and> get_current_round 103 2 empty_store =
        (\<lparr>r_id = 2, round_number = 1, status = ''active'', r_created_at = 103,
          total_chars = 68, round_votes = None, generated_songs = None\<rparr>,
         \<lparr>words_collection = [], rounds_collection =
           [\<lparr>r_id = 2, round_number = 1, status = ''active'', r_created_at = 103,
             total_chars = 68, round_votes = None, generated_songs = None\<rparr>]\<rparr>)"
proof -
  have f: "find_one (\<lambda>r. status r = ''active'') (rounds_collection ex_store)
     = Some (ex_round\<lparr>total_chars := 72\<rparr>)"
    by (simp add: ex_store_def ex_round_def)
  have e: "rounds_collection empty_store = []"
    by (simp add: empty_store_def)
  then have n: "\<forall>r \<in> set (rounds_collection empty_store). status r \<noteq> ''active''"
    by simp
  from get_current_round_correct [of ex_store 103 2] f
  have 1: "get_current_round 103 2 ex_store = (ex_round\<lparr>total_chars := 72\<rparr>, ex_store)"
    by blast
  from get_current_round_correct [of empty_store 103 2] n
  have 2: "get_current_round 103 2 empty_store =
        (\<lparr>r_id = 2, round_number = 1, status = ''active'', r_created_at = 103,
          total_chars = 68, round_votes = None, generated_songs = None\<rparr>,
         \<lparr>words_collection = [], rounds_collection =
           [\<lparr>r_id = 2, round_number = 1, status = ''active'', r_created_at = 103,
             total_chars = 68, round_votes = None, generated_songs = None\<rparr>]\<rparr>)"
    by (simp add: empty_store_def length_BASE_PROMPT)
  from f 1 e 2 show ?thesis by blast
qed

section \<open>Voting for a word\<close>

text \<open>
  C10: \<^verbatim>\<open>vote_for_word\<close> raises exactly when no stored word has the identifier, and
  returns normally otherwise; \<^verbatim>\<open>vote_for_song\<close>, on an identifier of no stored round,
  returns false and leaves the store as it is.
\<close>

theorem vote_for_word_missing:
  "(vote_for_word uid now wid s = Inl AttributeError) = (wid \<notin> w_id ` set (words_collection s))
   \<and> (\<exists>s'. vote_for_word uid now wid s = Inr s') = (wid \<in> w_id ` set (words_collection s))
   \<and> (rid \<notin> r_id ` set (rounds_collection s) \<longrightarrow> vote_for_song uid now rid s = (False, s))"
proof -
  have n: "(find_one (\<lambda>d. w_id d = wid) (words_collection s) = None)
            = (wid \<notin> w_id ` set (words_collection s))"
    by (auto simp: find_one_None_iff)
  have a: "(vote_for_word uid now wid s = Inl AttributeError)
            = (wid \<notin> w_id ` set (words_collection s))"
    unfolding n [symmetric] by (simp add: vote_for_word_def Let_def split: option.splits)
  have b: "(\<exists>s'. vote_for_word uid now wid s = Inr s') = (wid \<in> w_id ` set (words_collection s))"
    using a by (cases "vote_for_word uid now wid s") (auto intro: error.exhaust)
  have c: "vote_for_song uid now rid s = (False, s)" if "rid \<notin> r_id ` set (rounds_collection s)"
  proof -
    from that have "find_one (\<lambda>r. r_id r = rid) (rounds_collection s) = None"
      by (auto simp: find_one_None_iff)
    then show ?thesis by (simp add: vote_for_song_def)
  qed
  from a b c show ?thesis by blast
qed

theorem vote_for_word_missing_witness:
  "12 \<notin> w_id ` set (words_collection ex_store)
   \<and> vote_for_word ''65a1f0c2e4b0a1b2c3d4e5f7'' 104 12 ex_store = Inl AttributeError
   \<and> 10 \<in> w_id ` set (words_collection ex_store)
   \<and> (\<exists>s'. vote_for_word ''65a1f0c2e4b0a1b2c3d4e5f7'' 104 10 ex_store = Inr s')
   \<and> 3 \<notin> r_id ` set (rounds_collection ex_store)
   \<and> vote_for_song ''65a1f0c2e4b0a1b2c3d4e5f7'' 104 3 ex_store = (False, ex_store)"
proof -
  have 1: "12 \<notin> w_id ` set (words_collection ex_store)"
    and 2: "10 \<in> w_id ` set (words_collection ex_store)"
    and 3: "3 \<notin> r_id ` set (rounds_collection ex_store)"
    by (simp_all add: ex_store_def ex_word_def ex_round_def)
  show ?thesis
    using 1 2 3 vote_for_word_missing [of "''65a1f0c2e4b0a1b2c3d4e5f7''" 104 12 ex_store 3]
      vote_for_word_missing [of "''65a1f0c2e4b0a1b2c3d4e5f7''" 104 10 ex_store 3]
    by blast
qed

lemma user_votes_empty_iff:
  "(uid \<in> set (map user_id (get_votes vs))) = (user_votes uid vs \<noteq> [])"
  by (auto simp: user_votes_def filter_empty_conv)

lemma vote_for_word_voted:
  assumes "find_one (\<lambda>d. w_id d = wid) (words_collection s) = Some wd"
    and "uid \<in> set (map user_id (get_votes (word_votes wd)))"
  shows "vote_for_word uid now wid s = Inr s"
  using assms by (simp add: vote_for_word_def)

lemma vote_for_word_fresh:
  assumes "find_one (\<lambda>d. w_id d = wid) (words_collection s) = Some wd"
    and "uid \<notin> set (map user_id (get_votes (word_votes wd)))"
  shows "vote_for_word uid now wid s =
     Inr (s\<lparr>words_collection := update_one (\<lambda>d. w_id d = wid)
             (\<lambda>d. d\<lparr>word_votes := Some (get_votes (word_votes d) @ [\<lparr>user_id = uid, timestamp = now\<rparr>])\<rparr>)
             (words_collection s)\<rparr>)"
  using assms by (simp add: vote_for_word_def push_vote_def)

text \<open>
  C3: for a stored word, a call of \<^verbatim>\<open>vote_for_word\<close> by a user who is among the
  word's voters changes nothing; a call by any other user appends exactly one entry with
  the user and the time to this word's vote list and changes no other document. A second
  call by the same user is a no-op: after two calls the store is the one after the
  first, the user's entries number one if there was none or one before (in general the
  greater of one and their number before), and a word without votes has exactly the one
  new entry.
\<close>

theorem vote_for_word_idempotent:
  assumes f: "find_one (\<lambda>d. w_id d = wid) (words_collection s) = Some wd"
  shows "(uid \<in> set (map user_id (get_votes (word_votes wd))) \<longrightarrow> vote_for_word uid now wid s = Inr s)
   \<and> (uid \<notin> set (map user_id (get_votes (word_votes wd))) \<longrightarrow>
        (\<exists>s'. vote_for_word uid now wid s = Inr s'
          \<and> rounds_collection s' = rounds_collection s
          \<and> find_one (\<lambda>d. w_id d = wid) (words_collection s')
              = Some (wd\<lparr>word_votes := Some (get_votes (word_votes wd) @ [\<lparr>user_id = uid, timestamp = now\<rparr>])\<rparr>)
          \<and> list_all2 (\<lambda>x y. y = x \<or> (x = wd \<and>
                y = wd\<lparr>word_votes := Some (get_votes (word_votes wd) @ [\<lparr>user_id = uid, timestamp = now\<rparr>])\<rparr>))
               (words_collection s) (words_collection s')))
   \<and> (\<exists>s2 w2. vote_twice uid now later wid s = Inr s2
          \<and> vote_for_word uid now wid s = Inr s2
          \<and> find_one (\<lambda>d. w_id d = wid) (words_collection s2) = Some w2
          \<and> length (user_votes uid (word_votes w2)) = max 1 (length (user_votes uid (word_votes wd)))
          \<and> (get_votes (word_votes wd) = [] \<longrightarrow>
                get_votes (word_votes w2) = [\<lparr>user_id = uid, timestamp = now\<rparr>]))"
proof -
  let ?v = "\<lparr>user_id = uid, timestamp = now\<rparr>"
  let ?wd' = "wd\<lparr>word_votes := Some (get_votes (word_votes wd) @ [?v])\<rparr>"
  let ?u = "\<lambda>d. d\<lparr>word_votes := Some (get_votes (word_votes d) @ [?v])\<rparr>"
  let ?s' = "s\<lparr>words_collection := update_one (\<lambda>d. w_id d = wid) ?u (words_collection s)\<rparr>"
  have f': "find_one (\<lambda>d. w_id d = wid) (words_collection ?s') = Some ?wd'"
    using f by (simp add: find_one_update_one)
  have voted': "uid \<in> set (map user_id (get_votes (word_votes ?wd')))"
    by (simp add: get_votes_def)
  have a: "vote_for_word uid now wid s = Inr s"
    if "uid \<in> set (map user_id (get_votes (word_votes wd)))"
    using f that by (rule vote_for_word_voted)
  have b: "\<exists>s'. vote_for_word uid now wid s = Inr s'
          \<and> rounds_collection s' = rounds_collection s
          \<and> find_one (\<lambda>d. w_id d = wid) (words_collection s') = Some ?wd'
          \<and> list_all2 (\<lambda>x y. y = x \<or> (x = wd \<and> y = ?wd')) (words_collection s) (words_collection s')"
    if n: "uid \<notin> set (map user_id (get_votes (word_votes wd)))"
  proof (intro exI conjI)
    show "vote_for_word uid now wid s = Inr ?s'" using f n by (rule vote_for_word_fresh)
    show "rounds_collection ?s' = rounds_collection s" by simp
    show "find_one (\<lambda>d. w_id d = wid) (words_collection ?s') = Some ?wd'" by (rule f')
    show "list_all2 (\<lambda>x y. y = x \<or> (x = wd \<and> y = ?wd')) (words_collection s) (words_collection ?s')"
      using update_one_found [OF f, of ?u] by simp
  qed
  have c: "\<exists>s2 w2. vote_twice uid now later wid s = Inr s2
          \<and> vote_for_word uid now wid s = Inr s2
          \<and> find_one (\<lambda>d. w_id d = wid) (words_collection s2) = Some w2
          \<and> length (user_votes uid (word_votes w2)) = max 1 (length (user_votes uid (word_votes wd)))
          \<and> (get_votes (word_votes wd) = [] \<longrightarrow> get_votes (word_votes w2) = [?v])"
  proof (cases "uid \<in> set (map user_id (get_votes (word_votes wd)))")
    case True
    then have 1: "vote_for_word uid now wid s = Inr s" by (rule a)
    have 2: "vote_for_word uid later wid s = Inr s" using f True by (rule vote_for_word_voted)
    from True have "user_votes uid (word_votes wd) \<noteq> []" using user_votes_empty_iff by blast
    then have 3: "length (user_votes uid (word_votes wd)) = max 1 (length (user_votes uid (word_votes wd)))"
      by (cases "user_votes uid (word_votes wd)") simp_all
    from True have 4: "get_votes (word_votes wd) \<noteq> []" by auto
    show ?thesis
      using 1 2 3 4 f by (auto simp: vote_twice_def)
  next
    case False
    have 1: "vote_for_word uid now wid s = Inr ?s'" using f False by (rule vote_for_word_fresh)
    have 2: "vote_for_word uid later wid ?s' = Inr ?s'" using f' voted' by (rule vote_for_word_voted)
    from False have "user_votes uid (word_votes wd) = []" using user_votes_empty_iff by blast
    then have 3: "length (user_votes uid (word_votes ?wd')) = max 1 (length (user_votes uid (word_votes wd)))"
      by (simp add: user_votes_def get_votes_def)
    have 4: "get_votes (word_votes wd) = [] \<longrightarrow> get_votes (word_votes ?wd') = [?v]"
      by (simp add: get_votes_def)
    show ?thesis
      apply (intro exI [of _ ?s'] exI [of _ ?wd'] conjI)
      using 1 2 apply (simp add: vote_twice_def)
      using 1 apply simp
      using f' apply simp
      using 3 apply simp
      using 4 apply simp
      done
  qed
  from a b c show ?thesis by blast
qed

theorem vote_for_word_idempotent_witness:
  "find_one (\<lambda>d. w_id d = 10) (words_collection ex_store) = Some ex_word
   \<and> ''65a1f0c2e4b0a1b2c3d4e5f7'' \<notin> set (map user_id (get_votes (word_votes ex_word)))
   \<and> vote_for_word ''65a1f0c2e4b0a1b2c3d4e5f7'' 104 10 ex_store
       = Inr (ex_store\<lparr>words_collection :=
           [ex_word\<lparr>word_votes :=
              Some [\<lparr>user_id = ''65a1f0c2e4b0a1b2c3d4e5f7'', timestamp = 104\<rparr>]\<rparr>]\<rparr>)
   \<and> vote_twice ''65a1f0c2e4b0a1b2c3d4e5f7'' 104 105 10 ex_store
       = Inr (ex_store\<lparr>words_collection :=
           [ex_word\<lparr>word_votes :=
              Some [\<lparr>user_id = ''65a1f0c2e4b0a1b2c3d4e5f7'', timestamp = 104\<rparr>]\<rparr>]\<rparr>)"
proof -
  let ?u = "''65a1f0c2e4b0a1b2c3d4e5f7''"
  let ?s1 = "ex_store\<lparr>words_collection :=
           [ex_word\<lparr>word_votes := Some [\<lparr>user_id = ?u, timestamp = 104\<rparr>]\<rparr>]\<rparr>"
  have f: "find_one (\<lambda>d. w_id d = 10) (words_collection ex_store) = Some ex_word"
    by (simp add: ex_store_def ex_word_def)
  have n: "?u \<notin> set (map user_id (get_votes (word_votes ex_word)))"
    by (simp add: ex_word_def get_votes_def)
  have e: "get_votes (word_votes ex_word) = []"
    by (simp add: ex_word_def get_votes_def)
  have l: "words_collection ex_store = [ex_word]"
    by (simp add: ex_store_def)
  from vote_for_word_idempotent [OF f, of ?u 104 105] n
  obtain s' where v: "vote_for_word ?u 104 10 ex_store = Inr s'"
    and r: "rounds_collection s' = rounds_collection ex_store"
    and w: "list_all2 (\<lambda>x y. y = x \<or> (x = ex_word \<and> y = ex_word\<lparr>word_votes :=
               Some (get_votes (word_votes ex_word) @ [\<lparr>user_id = ?u, timestamp = 104\<rparr>])\<rparr>))
             (words_collection ex_store) (words_collection s')"
      and f': "find_one (\<lambda>d. w_id d = 10) (words_collection s')
              = Some (ex_word\<lparr>word_votes := Some (get_votes (word_votes ex_word)
                   @ [\<lparr>user_id = ?u, timestamp = 104\<rparr>])\<rparr>)"
    by blast
  from w obtain y where y: "words_collection s' = [y]"
    unfolding l by (auto simp: list_all2_Cons1)
  with f' have "y = ex_word\<lparr>word_votes := Some [\<lparr>user_id = ?u, timestamp = 104\<rparr>]\<rparr>"
    unfolding e by (simp split: if_splits)
  with y r have s': "s' = ?s1"
    by (cases s') (simp add: ex_store_def)
  from vote_for_word_idempotent [OF f, of ?u 104 105] v
  have "vote_twice ?u 104 105 10 ex_store = Inr s'"
    by auto
  with f n v show ?thesis unfolding s' by blast
qed

section \<open>Voting for a round's songs\<close>

lemma get_votes_simps [simp]: "get_votes None = []" "get_votes (Some l) = l"
  by (simp_all add: get_votes_def)

lemma find_one_append_Some:
  "find_one q ds = Some d \<Longrightarrow> find_one q (ds @ es) = Some d"
  by (induction ds) (auto split: if_splits)

lemma find_one_update_other:
  assumes "find_one q ds = Some d" and "\<And>x. q (u x) = q x"
  shows "find_one q (update_one q' u ds) = Some d \<or> find_one q (update_one q' u ds) = Some (u d)"
  using assms by (induction ds) (auto split: if_splits)

lemma vote_for_song_not_found:
  "find_one (\<lambda>r. r_id r = rid) (rounds_collection s) = None \<Longrightarrow>
     vote_for_song uid now rid s = (False, s)"
  by (simp add: vote_for_song_def)

lemma vote_for_song_no_songs:
  "find_one (\<lambda>r. r_id r = rid) (rounds_collection s) = Some r \<Longrightarrow> generated_songs r = None \<Longrightarrow>
     vote_for_song uid now rid s = (False, s)"
  by (simp add: vote_for_song_def)

lemma vote_for_song_voted:
  assumes "find_one (\<lambda>r. r_id r = rid) (rounds_collection s) = Some r"
    and "uid \<in> set (map user_id (get_votes (round_votes r)))"
  shows "vote_for_song uid now rid s = (False, s)"
proof -
  from assms(2) obtain vs where "round_votes r = Some vs"
    by (cases "round_votes r") simp_all
  with assms show ?thesis
    by (simp add: vote_for_song_def)
qed

lemma update_one_twice:
  "(\<And>d. q d \<Longrightarrow> q (u d)) \<Longrightarrow> update_one q v (update_one q u ds) = update_one q (v \<circ> u) ds"
  by (induction ds) simp_all

lemma update_one_cong_found:
  "find_one q ds = Some d \<Longrightarrow> f d = g d \<Longrightarrow> update_one q f ds = update_one q g ds"
  by (induction ds) (auto split: if_splits)

lemma vote_for_song_fresh:
  assumes f: "find_one (\<lambda>r. r_id r = rid) (rounds_collection s) = Some r"
    and g: "generated_songs r \<noteq> None"
    and n: "uid \<notin> set (map user_id (get_votes (round_votes r)))"
  shows "vote_for_song uid now rid s =
     (True, s\<lparr>rounds_collection := update_one (\<lambda>r. r_id r = rid)
         (\<lambda>r. r\<lparr>round_votes := Some (get_votes (round_votes r) @ [\<lparr>user_id = uid, timestamp = now\<rparr>])\<rparr>)
         (rounds_collection s)\<rparr>)"
proof (cases "round_votes r")
  case None
  let ?q = "\<lambda>r. r_id r = rid"
  let ?i = "\<lambda>r. r\<lparr>round_votes := Some []\<rparr>"
  let ?p = "\<lambda>r. r\<lparr>round_votes := push_vote \<lparr>user_id = uid, timestamp = now\<rparr> (round_votes r)\<rparr>"
  let ?a = "\<lambda>r. r\<lparr>round_votes := Some (get_votes (round_votes r) @ [\<lparr>user_id = uid, timestamp = now\<rparr>])\<rparr>"
  have "update_one ?q ?p (update_one ?q ?i (rounds_collection s))
      = update_one ?q (?p \<circ> ?i) (rounds_collection s)"
    by (rule update_one_twice) simp
  also have "\<dots> = update_one ?q ?a (rounds_collection s)"
    using f by (rule update_one_cong_found) (simp add: None push_vote_def get_votes_def)
  finally have u: "update_one ?q ?p (update_one ?q ?i (rounds_collection s))
      = update_one ?q ?a (rounds_collection s)" .
  from f g None show ?thesis
    by (simp add: vote_for_song_def get_votes_def u [unfolded get_votes_def])
next
  case (Some vs)
  with f g n show ?thesis
    by (simp add: vote_for_song_def push_vote_def)
qed

lemma song_voter_vote_for_song_same:
  assumes "song_voter uid rid s"
  shows "song_voter uid rid (snd (vote_for_song uid' now' rid s))"
proof -
  from assms obtain r where f: "find_one (\<lambda>r. r_id r = rid) (rounds_collection s) = Some r"
    and v: "uid \<in> set (map user_id (get_votes (round_votes r)))"
    by (auto simp: song_voter_def split: option.splits)
  show ?thesis
  proof (cases "generated_songs r \<noteq> None \<and> uid' \<notin> set (map user_id (get_votes (round_votes r)))")
    case True
    then show ?thesis
      using f v by (simp add: vote_for_song_fresh [OF f] song_voter_def find_one_update_one get_votes_def)
  next
    case False
    then have "vote_for_song uid' now' rid s = (False, s)"
      using f vote_for_song_no_songs [OF f] vote_for_song_voted [OF f] by blast
    with assms show ?thesis by simp
  qed
qed

lemma find_update_other_id:
  "rid' \<noteq> rid \<Longrightarrow> (\<And>x. r_id (u x) = r_id x) \<Longrightarrow>
     find_one (\<lambda>r. r_id r = rid) (update_one (\<lambda>r. r_id r = rid') u ds)
       = find_one (\<lambda>r. r_id r = rid) ds"
  by (induction ds) auto

lemma find_vote_for_song_other:
  assumes "rid' \<noteq> rid"
  shows "find_one (\<lambda>r. r_id r = rid) (rounds_collection (snd (vote_for_song uid' now' rid' s)))
       = find_one (\<lambda>r. r_id r = rid) (rounds_collection s)"
  using assms
  by (simp add: vote_for_song_def Let_def find_update_other_id split: option.splits)

lemma song_voter_vote_for_song:
  "song_voter uid rid s \<Longrightarrow> song_voter uid rid (snd (vote_for_song uid' now' rid' s))"
  by (cases "rid' = rid")
     (simp_all add: song_voter_vote_for_song_same, simp add: song_voter_def find_vote_for_song_other)

lemma song_voter_update_total_chars:
  assumes "song_voter uid rid s"
  shows "song_voter uid rid
     (s\<lparr>words_collection := ws, rounds_collection :=
         update_one q (\<lambda>x. x\<lparr>total_chars := n\<rparr>) (rounds_collection s)\<rparr>)"
proof -
  from assms obtain r0 where f: "find_one (\<lambda>r. r_id r = rid) (rounds_collection s) = Some r0"
    and v: "uid \<in> set (map user_id (get_votes (round_votes r0)))"
    by (auto simp: song_voter_def split: option.splits)
  from find_one_update_other [OF f, of "\<lambda>x. x\<lparr>total_chars := n\<rparr>" q] v
  show ?thesis
    by (auto simp: song_voter_def)
qed

lemma song_voter_add_word:
  assumes "song_voter uid rid s"
  shows "song_voter uid rid (snd (add_word uid' now' nid w r s))"
  using assms song_voter_update_total_chars [OF assms]
  by (simp add: add_word_def Let_def)

lemma song_voter_get_current_round:
  "song_voter uid rid s \<Longrightarrow> song_voter uid rid (snd (get_current_round now nid s))"
  by (auto simp: get_current_round_def Let_def song_voter_def insert_one_def find_one_append_Some
      split: option.splits)

lemma song_voter_vote_for_word:
  "song_voter uid rid s \<Longrightarrow> vote_for_word uid' now' wid s = Inr s' \<Longrightarrow> song_voter uid rid s'"
  by (auto simp: vote_for_word_def Let_def song_voter_def split: option.splits if_splits)

lemma song_voter_step: "song_voter uid rid s \<Longrightarrow> song_voter uid rid (step op s)"
  by (cases op)
     (auto simp: song_voter_add_word song_voter_get_current_round song_voter_vote_for_song
        dest: song_voter_vote_for_word split: sum.splits)

lemma song_voter_run: "song_voter uid rid s \<Longrightarrow> song_voter uid rid (run ops s)"
  unfolding run_def by (induction ops arbitrary: s) (simp_all add: song_voter_step)

lemma song_voter_False:
  "song_voter uid rid s \<Longrightarrow> vote_for_song uid now rid s = (False, s)"
  by (auto simp: song_voter_def split: option.splits intro: vote_for_song_voted)

lemma vote_for_song_True_voter:
  assumes "fst (vote_for_song uid now rid s)"
  shows "song_voter uid rid (snd (vote_for_song uid now rid s))"
proof -
  from assms obtain r where f: "find_one (\<lambda>r. r_id r = rid) (rounds_collection s) = Some r"
    using vote_for_song_not_found [of rid s uid now] by (cases "find_one (\<lambda>r. r_id r = rid) (rounds_collection s)") auto
  from assms f have g: "generated_songs r \<noteq> None"
    using vote_for_song_no_songs [OF f, of uid now] by (cases "generated_songs r") auto
  from assms f have n: "uid \<notin> set (map user_id (get_votes (round_votes r)))"
    using vote_for_song_voted [OF f, of uid now] by auto
  show ?thesis
    using f by (simp add: vote_for_song_fresh [OF f g n] song_voter_def find_one_update_one)
qed

text \<open>
  C4: \<^verbatim>\<open>vote_for_song\<close> returns false and leaves the store as it is when no stored
  round has the identifier or the round has no \<^verbatim>\<open>generated_songs\<close>. For a round with
  generated songs, a user who is not among its voters gets true, and exactly one entry
  with the user and the time is appended to the round's vote list (the list of the new
  entry alone when the round had none); nothing else changes. A user among the voters
  gets false, without any change. After a call that returned true, every later call by
  the same user for the same round, after any sequence of calls in between, returns
  false and changes nothing.
\<close>

theorem vote_for_song_once:
  "(find_one (\<lambda>r. r_id r = rid) (rounds_collection s) = None \<longrightarrow>
        vote_for_song uid now rid s = (False, s))
   \<and> (\<forall>r. find_one (\<lambda>r. r_id r = rid) (rounds_collection s) = Some r \<longrightarrow>
         (generated_songs r = None \<longrightarrow> vote_for_song uid now rid s = (False, s))
       \<and> (generated_songs r \<noteq> None \<and> uid \<notin> set (map user_id (get_votes (round_votes r))) \<longrightarrow>
            fst (vote_for_song uid now rid s)
          \<and> words_collection (snd (vote_for_song uid now rid s)) = words_collection s
          \<and> find_one (\<lambda>r. r_id r = rid) (rounds_collection (snd (vote_for_song uid now rid s)))
              = Some (r\<lparr>round_votes :=
                   Some (get_votes (round_votes r) @ [\<lparr>user_id = uid, timestamp = now\<rparr>])\<rparr>)
          \<and> list_all2 (\<lambda>x y. y = x \<or> (x = r \<and> y = r\<lparr>round_votes :=
                   Some (get_votes (round_votes r) @ [\<lparr>user_id = uid, timestamp = now\<rparr>])\<rparr>))
               (rounds_collection s) (rounds_collection (snd (vote_for_song uid now rid s))))
       \<and> (uid \<in> set (map user_id (get_votes (round_votes r))) \<longrightarrow>
            vote_for_song uid now rid s = (False, s)))
   \<and> (fst (vote_for_song uid now rid s) \<longrightarrow>
        (\<forall>ops later. vote_for_song uid later rid (run ops (snd (vote_for_song uid now rid s)))
           = (False, run ops (snd (vote_for_song uid now rid s)))))"
proof -
  let ?q = "\<lambda>r. r_id r = rid"
  let ?a = "\<lambda>r. r\<lparr>round_votes :=
              Some (get_votes (round_votes r) @ [\<lparr>user_id = uid, timestamp = now\<rparr>])\<rparr>"
  have a: "vote_for_song uid now rid s = (False, s)"
    if "find_one ?q (rounds_collection s) = None"
    using that by (rule vote_for_song_not_found)
  have b: "(generated_songs r = None \<longrightarrow> vote_for_song uid now rid s = (False, s))
       \<and> (generated_songs r \<noteq> None \<and> uid \<notin> set (map user_id (get_votes (round_votes r))) \<longrightarrow>
            fst (vote_for_song uid now rid s)
          \<and> words_collection (snd (vote_for_song uid now rid s)) = words_collection s
          \<and> find_one ?q (rounds_collection (snd (vote_for_song uid now rid s))) = Some (?a r)
          \<and> list_all2 (\<lambda>x y. y = x \<or> (x = r \<and> y = ?a r))
               (rounds_collection s) (rounds_collection (snd (vote_for_song uid now rid s))))
       \<and> (uid \<in> set (map user_id (get_votes (round_votes r))) \<longrightarrow>
            vote_for_song uid now rid s = (False, s))"
    if f: "find_one ?q (rounds_collection s) = Some r" for r
  proof (intro conjI impI)
    assume "generated_songs r = None"
    with f show "vote_for_song uid now rid s = (False, s)" by (rule vote_for_song_no_songs)
  next
    assume "uid \<in> set (map user_id (get_votes (round_votes r)))"
    with f show "vote_for_song uid now rid s = (False, s)" by (rule vote_for_song_voted)
  next
    assume h: "generated_songs r \<noteq> None \<and> uid \<notin> set (map user_id (get_votes (round_votes r)))"
    then have eq: "vote_for_song uid now rid s =
        (True, s\<lparr>rounds_collection := update_one ?q ?a (rounds_collection s)\<rparr>)"
      using vote_for_song_fresh [OF f] by blast
    show "fst (vote_for_song uid now rid s)" by (simp add: eq)
    show "words_collection (snd (vote_for_song uid now rid s)) = words_collection s"
      by (simp add: eq)
    show "find_one ?q (rounds_collection (snd (vote_for_song uid now rid s))) = Some (?a r)"
      using f by (simp add: eq find_one_update_one)
    show "list_all2 (\<lambda>x y. y = x \<or> (x = r \<and> y = ?a r))
               (rounds_collection s) (rounds_collection (snd (vote_for_song uid now rid s)))"
      using update_one_found [OF f, of ?a] by (simp add: eq)
  qed
  have c: "vote_for_song uid later rid (run ops (snd (vote_for_song uid now rid s)))
           = (False, run ops (snd (vote_for_song uid now rid s)))"
    if "fst (vote_for_song uid now rid s)" for ops later
    using that by (intro song_voter_False song_voter_run vote_for_song_True_voter)
  from a b c show ?thesis by blast
qed

theorem vote_for_song_once_witness:
  "find_one (\<lambda>r. r_id r = 5) (rounds_collection ex_song_store) = Some ex_done_round
   \<and> generated_songs ex_done_round \<noteq> None
   \<and> ''65a1f0c2e4b0a1b2c3d4e5f7'' \<notin> set (map user_id (get_votes (round_votes ex_done_round)))
   \<and> fst (vote_for_song ''65a1f0c2e4b0a1b2c3d4e5f7'' 200 5 ex_song_store)
   \<and> find_one (\<lambda>r. r_id r = 5)
        (rounds_collection (snd (vote_for_song ''65a1f0c2e4b0a1b2c3d4e5f7'' 200 5 ex_song_store)))
       = Some (ex_done_round\<lparr>round_votes :=
            Some [\<lparr>user_id = ''65a1f0c2e4b0a1b2c3d4e5f7'', timestamp = 200\<rparr>]\<rparr>)
   \<and> fst (vote_for_song ''65a1f0c2e4b0a1b2c3d4e5f7'' 201 5
        (run [] (snd (vote_for_song ''65a1f0c2e4b0a1b2c3d4e5f7'' 200 5 ex_song_store)))) = False
   \<and> find_one (\<lambda>r. r_id r = 6) (rounds_collection ex_song_store) = None
   \<and> vote_for_song ''65a1f0c2e4b0a1b2c3d4e5f7'' 200 6 ex_song_store = (False, ex_song_store)"
proof -
  let ?u = "''65a1f0c2e4b0a1b2c3d4e5f7''"
  have f: "find_one (\<lambda>r. r_id r = 5) (rounds_collection ex_song_store) = Some ex_done_round"
    by (simp add: ex_song_store_def ex_done_round_def)
  have g: "generated_songs ex_done_round \<noteq> None"
    by (simp add: ex_done_round_def)
  have n: "?u \<notin> set (map user_id (get_votes (round_votes ex_done_round)))"
    by (simp add: ex_done_round_def)
  have e: "get_votes (round_votes ex_done_round) = []"
    by (simp add: ex_done_round_def)
  have m: "find_one (\<lambda>r. r_id r = 6) (rounds_collection ex_song_store) = None"
    by (simp add: ex_song_store_def ex_done_round_def)
  note t = vote_for_song_once [of 5 ex_song_store ?u 200]
  from t f g n have 1: "fst (vote_for_song ?u 200 5 ex_song_store)"
    by blast
  from t f g n have "find_one (\<lambda>r. r_id r = 5)
        (rounds_collection (snd (vote_for_song ?u 200 5 ex_song_store)))
       = Some (ex_done_round\<lparr>round_votes := Some (get_votes (round_votes ex_done_round)
            @ [\<lparr>user_id = ?u, timestamp = 200\<rparr>])\<rparr>)"
    by blast
  then have 2: "find_one (\<lambda>r. r_id r = 5)
        (rounds_collection (snd (vote_for_song ?u 200 5 ex_song_store)))
       = Some (ex_done_round\<lparr>round_votes := Some [\<lparr>user_id = ?u, timestamp = 200\<rparr>]\<rparr>)"
    unfolding e by simp
  from t 1 have 3: "fst (vote_for_song ?u 201 5
        (run [] (snd (vote_for_song ?u 200 5 ex_song_store)))) = False"
    by simp
  from vote_for_song_once [of 6 ex_song_store ?u 200] m
  have 4: "vote_for_song ?u 200 6 ex_song_store = (False, ex_song_store)"
    by blast
  from f g n 1 2 3 4 m show ?thesis by blast
qed

section \<open>At most one active round\<close>

lemma map_update_one:
  "(\<And>d. f (u d) = f d) \<Longrightarrow> map f (update_one q u ds) = map f ds"
  by (induction ds) simp_all

lemma active_rounds_Nil_iff:
  "(active_rounds s = []) = (find_one (\<lambda>r. status r = ''active'') (rounds_collection s) = None)"
  by (simp add: active_rounds_def find_one_None_iff filter_empty_conv)

lemma length_active_rounds:
  "length (active_rounds s)
     = length (filter (\<lambda>x. x = ''active'') (map status (rounds_collection s)))"
  by (simp add: active_rounds_def filter_map comp_def)

lemma status_add_word:
  "map status (rounds_collection (snd (add_word uid now nid w r s)))
     = map status (rounds_collection s)"
  by (simp add: add_word_def Let_def map_update_one)

lemma status_vote_for_word:
  "vote_for_word uid now wid s = Inr s' \<Longrightarrow> rounds_collection s' = rounds_collection s"
  by (auto simp: vote_for_word_def Let_def split: option.splits if_splits)

lemma status_vote_for_song:
  "map status (rounds_collection (snd (vote_for_song uid now rid s)))
     = map status (rounds_collection s)"
  by (simp add: vote_for_song_def Let_def map_update_one split: option.splits)

lemma status_get_current_round:
  "map status (rounds_collection (snd (get_current_round now nid s)))
     = map status (rounds_collection s) @ (if active_rounds s = [] then [''active''] else [])"
  by (simp add: get_current_round_def Let_def insert_one_def active_rounds_Nil_iff
      split: option.splits)

lemma status_step:
  "map status (rounds_collection (step op s))
     = map status (rounds_collection s) @ (if creates_round op s then [''active''] else [])"
proof (cases op)
  case (GetCurrentRound now nid)
  then show ?thesis by (simp add: status_get_current_round)
next
  case (AddWord uid now nid w r)
  then show ?thesis by (simp add: status_add_word)
next
  case (VoteForWord uid now wid)
  then show ?thesis
    by (cases "vote_for_word uid now wid s") (simp_all add: status_vote_for_word)
next
  case (VoteForSong uid now rid)
  then show ?thesis by (simp add: status_vote_for_song)
next
  case GetPreviousRounds
  then show ?thesis by simp
qed

lemma creates_round_no_active: "creates_round op s \<Longrightarrow> active_rounds s = []"
  by (cases op) simp_all

lemma step_at_most_one_active:
  assumes "at_most_one_active s"
  shows "at_most_one_active (step op s)"
proof (cases "creates_round op s")
  case True
  then have "length (active_rounds s) = 0"
    by (simp add: creates_round_no_active)
  with True show ?thesis
    by (simp add: at_most_one_active_def length_active_rounds status_step)
next
  case False
  with assms show ?thesis
    by (simp add: at_most_one_active_def length_active_rounds status_step)
qed

lemma run_at_most_one_active: "at_most_one_active s \<Longrightarrow> at_most_one_active (run ops s)"
  unfolding run_def by (induction ops arbitrary: s) (simp_all add: step_at_most_one_active)

text \<open>
  C7: a store with at most one active round has at most one active round after every
  call and after every sequence of calls. No call changes the status of a stored round
  or removes one, and the only call that adds a round is \<^verbatim>\<open>get_current_round\<close> on a
  store without an active round; the round it adds is active.
\<close>

theorem at_most_one_active_invariant:
  "(at_most_one_active s \<longrightarrow> at_most_one_active (step op s))
   \<and> (at_most_one_active s \<longrightarrow> at_most_one_active (run ops s))
   \<and> map status (rounds_collection (step op s))
       = map status (rounds_collection s) @ (if creates_round op s then [''active''] else [])
   \<and> (creates_round op s
        = ((\<exists>now nid. op = GetCurrentRound now nid)
           \<and> (\<forall>r \<in> set (rounds_collection s). status r \<noteq> ''active'')))"
proof -
  have d: "creates_round op s
        = ((\<exists>now nid. op = GetCurrentRound now nid)
           \<and> (\<forall>r \<in> set (rounds_collection s). status r \<noteq> ''active''))"
    by (cases op) (simp_all add: active_rounds_def filter_empty_conv)
  from step_at_most_one_active [of s op] run_at_most_one_active [of s ops] status_step [of op s] d
  show ?thesis by blast
qed

theorem at_most_one_active_invariant_witness:
  "at_most_one_active empty_store
   \<and> at_most_one_active (run [GetCurrentRound 100 1,
        AddWord ''65a1f0c2e4b0a1b2c3d4e5f6'' 101 10 ''fire'' ex_round,
        VoteForWord ''65a1f0c2e4b0a1b2c3d4e5f7'' 104 10,
        VoteForSong ''65a1f0c2e4b0a1b2c3d4e5f7'' 105 1,
        GetPreviousRounds,
        GetCurrentRound 106 2] empty_store)
   \<and> map status (rounds_collection (step (GetCurrentRound 100 1) empty_store)) = [''active'']
   \<and> map status (rounds_collection (step (GetCurrentRound 106 2) ex_store)) = [''active'']"
proof -
  have a: "at_most_one_active empty_store"
    by (simp add: at_most_one_active_def active_rounds_def empty_store_def)
  have c1: "creates_round (GetCurrentRound 100 1) empty_store"
    by (simp add: active_rounds_def empty_store_def)
  have c2: "\<not> creates_round (GetCurrentRound 106 2) ex_store"
    by (simp add: active_rounds_def ex_store_def ex_round_def)
  have m1: "map status (rounds_collection empty_store) = []"
    by (simp add: empty_store_def)
  have m2: "map status (rounds_collection ex_store) = [''active'']"
    by (simp add: ex_store_def ex_round_def)
  from a c1 m1
    at_most_one_active_invariant [of empty_store "GetCurrentRound 100 1"
      "[GetCurrentRound 100 1,
        AddWord ''65a1f0c2e4b0a1b2c3d4e5f6'' 101 10 ''fire'' ex_round,
        VoteForWord ''65a1f0c2e4b0a1b2c3d4e5f7'' 104 10,
        VoteForSong ''65a1f0c2e4b0a1b2c3d4e5f7'' 105 1,
        GetPreviousRounds,
        GetCurrentRound 106 2]"]
  have 1: "at_most_one_active (run [GetCurrentRound 100 1,
        AddWord ''65a1f0c2e4b0a1b2c3d4e5f6'' 101 10 ''fire'' ex_round,
        VoteForWord ''65a1f0c2e4b0a1b2c3d4e5f7'' 104 10,
        VoteForSong ''65a1f0c2e4b0a1b2c3d4e5f7'' 105 1,
        GetPreviousRounds,
        GetCurrentRound 106 2] empty_store)"
    and 2: "map status (rounds_collection (step (GetCurrentRound 100 1) empty_store)) = [''active'']"
    by simp_all
  from c2 m2 at_most_one_active_invariant [of ex_store "GetCurrentRound 106 2" "[]"]
  have 3: "map status (rounds_collection (step (GetCurrentRound 106 2) ex_store)) = [''active'']"
    by simp
  from a 1 2 3 show ?thesis by blast
qed

section \<open>Previous rounds\<close>

lemma previous_rounds_key_le:
  "((- int va, - (ra::int)) \<le> (- int vb, - rb)) = (vb < va \<or> (va = vb \<and> rb \<le> ra))"
  by (auto simp: less_eq_prod_def)

lemma get_previous_rounds_mset:
  "mset (get_previous_rounds s)
     = mset (map (\<lambda>r. (r, length (get_votes (round_votes r))))
          (filter (\<lambda>r. status r = ''completed'') (rounds_collection s)))"
  by (simp add: get_previous_rounds_def find_docs_def Let_def)

lemma get_previous_rounds_sorted_wrt:
  "sorted_wrt (\<lambda>a b. snd b < snd a \<or> (snd a = snd b \<and> round_number (fst b) \<le> round_number (fst a)))
     (get_previous_rounds s)"
proof -
  let ?k = "\<lambda>(r, vote_count). (- int vote_count, - round_number r)"
  have "sorted (map ?k (get_previous_rounds s))"
    by (simp add: get_previous_rounds_def Let_def)
  then have "sorted_wrt (\<lambda>a b. ?k a \<le> ?k b) (get_previous_rounds s)"
    by (simp add: sorted_wrt_map)
  then show ?thesis
    by (rule sorted_wrt_mono_rel [rotated]) (auto simp: previous_rounds_key_le split: prod.splits)
qed

text \<open>
  C5: \<^verbatim>\<open>get_previous_rounds\<close> returns exactly the stored rounds with status
  \<^verbatim>\<open>completed\<close>, each once and with the length of its vote list (zero when the round
  has none) as \<^verbatim>\<open>vote_count\<close>; of two rounds of the result the earlier one has more
  votes, or as many votes and a round number at least as great. For the rounds
  #1 with 3 votes, #2 with 1 vote and #3 with 3 votes the order is #3, #1, #2.
\<close>

theorem get_previous_rounds_correct:
  "mset (get_previous_rounds s)
     = mset (map (\<lambda>r. (r, length (get_votes (round_votes r))))
          (filter (\<lambda>r. status r = ''completed'') (rounds_collection s)))
   \<and> sorted_wrt (\<lambda>a b. snd b < snd a
         \<or> (snd a = snd b \<and> round_number (fst b) \<le> round_number (fst a)))
       (get_previous_rounds s)
   \<and> (\<forall>p \<in> set (get_previous_rounds s). status (fst p) = ''completed''
         \<and> fst p \<in> set (rounds_collection s)
         \<and> snd p = length (get_votes (round_votes (fst p)))
         \<and> (round_votes (fst p) = None \<longrightarrow> snd p = 0))
   \<and> map (\<lambda>p. (round_number (fst p), snd p)) (get_previous_rounds ex_prev_store)
       = [(3, 3), (1, 3), (2, 1)]"
proof -
  have m: "mset (get_previous_rounds s)
     = mset (map (\<lambda>r. (r, length (get_votes (round_votes r))))
          (filter (\<lambda>r. status r = ''completed'') (rounds_collection s)))"
    by (rule get_previous_rounds_mset)
  have c: "status (fst p) = ''completed'' \<and> fst p \<in> set (rounds_collection s)
         \<and> snd p = length (get_votes (round_votes (fst p)))
         \<and> (round_votes (fst p) = None \<longrightarrow> snd p = 0)"
    if "p \<in> set (get_previous_rounds s)" for p
  proof -
    from that have "p \<in># mset (get_previous_rounds s)" by simp
    then have "p \<in> set (map (\<lambda>r. (r, length (get_votes (round_votes r))))
          (filter (\<lambda>r. status r = ''completed'') (rounds_collection s)))"
      unfolding m by simp
    then show ?thesis by (auto simp: get_votes_def)
  qed
  have e: "map (\<lambda>p. (round_number (fst p), snd p)) (get_previous_rounds ex_prev_store)
       = [(3, 3), (1, 3), (2, 1)]"
    by (simp add: get_previous_rounds_def find_docs_def ex_prev_store_def ex_completed_def
        ex_round_def ex_voters_def get_votes_def)
  from m get_previous_rounds_sorted_wrt [of s] c e show ?thesis by blast
qed

theorem get_previous_rounds_correct_witness:
  "set (get_previous_rounds ex_prev_store)
     = {(ex_completed 31 1 (Some (ex_voters [''65a1f0c2e4b0a1b2c3d4e5f1'',
           ''65a1f0c2e4b0a1b2c3d4e5f2'', ''65a1f0c2e4b0a1b2c3d4e5f3''])), 3),
        (ex_completed 32 2 (Some (ex_voters [''65a1f0c2e4b0a1b2c3d4e5f1''])), 1),
        (ex_completed 33 3 (Some (ex_voters [''65a1f0c2e4b0a1b2c3d4e5f2'',
           ''65a1f0c2e4b0a1b2c3d4e5f3'', ''65a1f0c2e4b0a1b2c3d4e5f4''])), 3)}
   \<and> set (get_previous_rounds (ex_prev_store\<lparr>rounds_collection := [ex_completed 35 5 None]\<rparr>))
       = {(ex_completed 35 5 None, 0)}
   \<and> round_votes (ex_completed 35 5 None) = None"
proof -
  have S: "set (get_previous_rounds s) = set (map (\<lambda>r. (r, length (get_votes (round_votes r))))
          (filter (\<lambda>r. status r = ''completed'') (rounds_collection s)))" for s
  proof -
    have "set (get_previous_rounds s) = set_mset (mset (get_previous_rounds s))"
      by simp
    also have "\<dots> = set (map (\<lambda>r. (r, length (get_votes (round_votes r))))
          (filter (\<lambda>r. status r = ''completed'') (rounds_collection s)))"
      using get_previous_rounds_correct [of s] by (simp only: set_mset_mset)
    finally show ?thesis .
  qed
  have 1: "set (get_previous_rounds ex_prev_store)
     = {(ex_completed 31 1 (Some (ex_voters [''65a1f0c2e4b0a1b2c3d4e5f1'',
           ''65a1f0c2e4b0a1b2c3d4e5f2'', ''65a1f0c2e4b0a1b2c3d4e5f3''])), 3),
        (ex_completed 32 2 (Some (ex_voters [''65a1f0c2e4b0a1b2c3d4e5f1''])), 1),
        (ex_completed 33 3 (Some (ex_voters [''65a1f0c2e4b0a1b2c3d4e5f2'',
           ''65a1f0c2e4b0a1b2c3d4e5f3'', ''65a1f0c2e4b0a1b2c3d4e5f4''])), 3)}"
    unfolding S
    by (simp add: ex_prev_store_def ex_completed_def ex_round_def ex_voters_def get_votes_def
        numeral_3_eq_3)
  have 2: "set (get_previous_rounds (ex_prev_store\<lparr>rounds_collection := [ex_completed 35 5 None]\<rparr>))
       = {(ex_completed 35 5 None, 0)}"
    unfolding S by (simp add: ex_completed_def get_votes_def)
  have 3: "round_votes (ex_completed 35 5 None) = None"
    by (simp add: ex_completed_def)
  from 1 2 3 show ?thesis by blast
qed

section \<open>The order of the current round's words\<close>

text \<open>
  C8 fails on the code: the sort is on the raw vote list, not on the number of votes.
  With ``fire'' voted for by two users and ``gold'' by five users whose identifiers are
  smaller, the store's order on vote lists puts ``fire'' first, in either stored order
  of the two words, and the prompt ends in ``fire gold''; a sort on the number of votes
  gives ``gold'', ``fire''.
\<close>

theorem get_current_round_words_raw_sort:
  "map (\<lambda>d. (word d, vote_count_key (word_votes d))) (words_of_round ex_vote_store ex_round)
     = [(''fire'', 2), (''gold'', 5)]
   \<and> map word (get_current_round_words bson_desc_key ex_vote_store ex_round)
       = [''fire'', ''gold'']
   \<and> map word (get_current_round_words bson_desc_key
         (ex_vote_store\<lparr>words_collection := [ex_gold, ex_fire]\<rparr>) ex_round)
       = [''fire'', ''gold'']
   \<and> get_current_prompt bson_desc_key ex_vote_store ex_round = BASE_PROMPT @ ''fire gold''
   \<and> map word (get_current_round_words vote_count_key ex_vote_store ex_round)
       = [''gold'', ''fire'']"
  by (simp add: get_current_round_words_def get_current_prompt_def sort_desc_def find_docs_def
      words_of_round_def vote_count_key_def get_votes_def
      ex_vote_store_def ex_fire_def ex_gold_def ex_round_def ex_voters_def)

end
